theory Spec2Isabelle
  imports Complex_Main "HOL-Library.AList" "HOL-Library.Sublist"
begin

section \<open>The actor-critic update of rlpytorch/methods/actor\_critic.py\<close>

text \<open>
  \<^verbatim>\<open>ActorCritic.update(self, mi, batch, stats)\<close> walks a trajectory batch backward in
  time. Everything it computes goes through objects that live outside the file: the model
  \<^verbatim>\<open>mi["model"]\<close>, the return estimator \<^verbatim>\<open>self.discounted_reward\<close>, the policy-gradient
  objective \<^verbatim>\<open>self.pg\<close>, the value matcher, the statistics sink and the tensor library.
  The embedding keeps the code of \<^verbatim>\<open>update\<close> as it is written and takes those objects
  as parameters: a collaborator is a function on an opaque world \<open>'w\<close> that either
  returns a value or raises, and in both cases leaves a new world behind.

  Type parameters: \<open>'t\<close> tensors and autograd variables, \<open>'c\<close> the Python scalar read
  by \<^verbatim>\<open>tot_err[0]\<close>, \<open>'h\<close> the history view built by \<^verbatim>\<open>batch.hist(t)\<close>, \<open>'s\<close> one time
  slice of \<^verbatim>\<open>batch["s"]\<close>, \<open>'w\<close> the world of the collaborators (model parameters and
  gradient buffers, the state of the return estimator, the contents of \<^verbatim>\<open>stats\<close>),
  \<open>'x\<close> the exceptions a collaborator can raise.
\<close>

subsection \<open>Data\<close>

text \<open>A Python dictionary with string keys, as the list of its items.\<close>

type_synonym 't dict = "(string \<times> 't) list"

text \<open>
  A dictionary display \<^verbatim>\<open>{k1: v1, k2: v2}\<close> and a call \<^verbatim>\<open>dict(k1=v1, k2=v2)\<close> store
  the items from left to right; a key that occurs again keeps its place and takes the
  later value.
\<close>

definition py_dict :: "'t dict \<Rightarrow> 't dict" where
  "py_dict kvs = foldl (\<lambda>d (k, v). AList.update k v d) [] kvs"

text \<open>
  The batch: \<^verbatim>\<open>batch["s"]\<close>, \<^verbatim>\<open>batch["r"]\<close> and \<^verbatim>\<open>batch["terminal"]\<close> are indexed by
  time along their first dimension.
\<close>

record ('s, 't) batch =
  batch_s :: "'s list"
  batch_r :: "'t list"
  batch_terminal :: "'t list"

text \<open>
  What can end \<^verbatim>\<open>update\<close> early. \<open>Raised x\<close> is an exception \<open>x\<close> coming out of a
  collaborator; \<open>KeyError\<close> and \<open>IndexError\<close> come from the lookups
  \<^verbatim>\<open>state_curr[value_node]\<close> and \<^verbatim>\<open>batch["r"][t]\<close>; \<open>TypeError\<close> is Python's answer to
  \<^verbatim>\<open>None[0]\<close>.
\<close>

datatype 'x error = Raised 'x | KeyError string | IndexError | TypeError

text \<open>
  The calls \<^verbatim>\<open>update\<close> makes, each with the arguments passed and, for a call that
  returned, the value returned. \<open>Raise x\<close> records a call that raised \<open>x\<close>.
\<close>

datatype ('h, 't, 'c, 'x) event =
    CallModel 'h "'t dict"
  | SetR 't
  | DRFeed "'t dict" 't
  | PGFeed 't "'t dict" 'h 'h 't
  | VMFeed "'t dict" 't
  | Backward 't
  | StatsGet string
  | StatsFeed string 'c
  | Raise 'x

text \<open>The tensor operations \<^verbatim>\<open>update\<close> applies itself.\<close>

record ('t, 'c) torch =
  squeeze :: "'t \<Rightarrow> 't"
  data :: "'t \<Rightarrow> 't"
  is_cuda :: "'t \<Rightarrow> bool"
  cuda :: "'t \<Rightarrow> 't"
  tsub :: "'t \<Rightarrow> 't \<Rightarrow> 't"
  tadd :: "'t \<Rightarrow> 't \<Rightarrow> 't"
  zeros_like :: "'t \<Rightarrow> 't"
  index0 :: "'t \<Rightarrow> 'c"
  div_int :: "'c \<Rightarrow> int \<Rightarrow> 'c"

text \<open>
  The collaborators. \<open>hist\<close> is \<^verbatim>\<open>batch.hist\<close>; \<open>forward\<close> is the model, called as
  \<^verbatim>\<open>m(...)\<close> and as \<^verbatim>\<open>m.forward(...)\<close>; \<open>setR\<close> and \<open>dr_feed\<close> are the two methods of
  the return estimator; \<open>pg_feed\<close> takes the advantage, the model output, the history
  view and \<^verbatim>\<open>old_pi_s\<close>; \<open>backward\<close> is \<^verbatim>\<open>err.backward()\<close>; \<open>stats_getitem\<close> and
  \<open>stats_feed\<close> are \<^verbatim>\<open>stats[name]\<close> and \<^verbatim>\<open>.feed(value)\<close> on the entry found. The
  \<^verbatim>\<open>stats\<close> object the collaborators receive is part of the world.
\<close>

record ('h, 's, 't, 'c, 'w, 'x) collab =
  hist :: "('s, 't) batch \<Rightarrow> int \<Rightarrow> 'h"
  forward :: "'h \<Rightarrow> 'w \<Rightarrow> ('x + 't dict) \<times> 'w"
  setR :: "'t \<Rightarrow> 'w \<Rightarrow> ('x + unit) \<times> 'w"
  dr_feed :: "'t dict \<Rightarrow> 'w \<Rightarrow> ('x + 't) \<times> 'w"
  pg_feed :: "'t \<Rightarrow> 't dict \<Rightarrow> 'h \<Rightarrow> 'h \<Rightarrow> 'w \<Rightarrow> ('x + 't) \<times> 'w"
  vm_feed :: "'t dict \<Rightarrow> 'w \<Rightarrow> ('x + 't) \<times> 'w"
  backward :: "'t \<Rightarrow> 'w \<Rightarrow> ('x + unit) \<times> 'w"
  stats_getitem :: "string \<Rightarrow> 'w \<Rightarrow> ('x + unit) \<times> 'w"
  stats_feed :: "string \<Rightarrow> 'c \<Rightarrow> 'w \<Rightarrow> ('x + unit) \<times> 'w"

text \<open>
  The state \<^verbatim>\<open>update\<close> runs in: the batch object, the world of the collaborators and
  the calls made so far.
\<close>

record ('h, 's, 't, 'c, 'w, 'x) state =
  batch :: "('s, 't) batch"
  world :: "'w"
  trace :: "('h, 't, 'c, 'x) event list"

subsection \<open>Statements and expressions that can raise\<close>

type_synonym ('a, 'h, 's, 't, 'c, 'w, 'x) prog =
  "('h, 's, 't, 'c, 'w, 'x) state \<Rightarrow> ('x error + 'a) \<times> ('h, 's, 't, 'c, 'w, 'x) state"

definition ret :: "'a \<Rightarrow> ('a, 'h, 's, 't, 'c, 'w, 'x) prog" where
  "ret a st = (Inr a, st)"

definition throw :: "'x error \<Rightarrow> ('a, 'h, 's, 't, 'c, 'w, 'x) prog" where
  "throw e st = (Inl e, st)"

text \<open>Sequencing: an exception skips everything that follows.\<close>

definition bnd ::
  "('a, 'h, 's, 't, 'c, 'w, 'x) prog \<Rightarrow> ('a \<Rightarrow> ('b, 'h, 's, 't, 'c, 'w, 'x) prog) \<Rightarrow>
   ('b, 'h, 's, 't, 'c, 'w, 'x) prog" where
  "bnd m f st = (case m st of (Inl e, st') \<Rightarrow> (Inl e, st') | (Inr a, st') \<Rightarrow> f a st')"

text \<open>
  A call to a collaborator runs it on the world. When it returns, the call is recorded
  with its result; when it raises, the exception is recorded and propagates.
\<close>

definition call ::
  "('w \<Rightarrow> ('x + 'a) \<times> 'w) \<Rightarrow> ('a \<Rightarrow> ('h, 't, 'c, 'x) event) \<Rightarrow>
   ('a, 'h, 's, 't, 'c, 'w, 'x) prog" where
  "call f ev st =
     (case f (world st) of
        (Inl x, w') \<Rightarrow> (Inl (Raised x), st\<lparr>world := w', trace := trace st @ [Raise x]\<rparr>)
      | (Inr a, w') \<Rightarrow> (Inr a, st\<lparr>world := w', trace := trace st @ [ev a]\<rparr>))"

definition get_batch :: "(('s, 't) batch, 'h, 's, 't, 'c, 'w, 'x) prog" where
  "get_batch st = (Inr (batch st), st)"

text \<open>\<^verbatim>\<open>d[k]\<close> on a dictionary.\<close>

definition getitem :: "'t dict \<Rightarrow> string \<Rightarrow> ('t, 'h, 's, 't, 'c, 'w, 'x) prog" where
  "getitem d k = (case map_of d k of None \<Rightarrow> throw (KeyError k) | Some v \<Rightarrow> ret v)"

text \<open>\<^verbatim>\<open>xs[t]\<close> along the time axis, for \<open>t \<ge> 0\<close>.\<close>

definition index_at :: "'t list \<Rightarrow> nat \<Rightarrow> ('t, 'h, 's, 't, 'c, 'w, 'x) prog" where
  "index_at xs t = (if t < length xs then ret (xs ! t) else throw IndexError)"

subsection \<open>The helper add\_err\<close>

text \<open>
  Modelled from the spec: \<^verbatim>\<open>add_err\<close> of \<^verbatim>\<open>rlpytorch/methods/utils.py\<close>, which is not
  among the sources. The spec has each loss "accumulated into a combined per-step error":
  the first loss starts the error (\<^verbatim>\<open>err\<close> is \<^verbatim>\<open>None\<close> before), the next is added to it.
\<close>

fun add_err :: "('t, 'c) torch \<Rightarrow> 't option \<Rightarrow> 't \<Rightarrow> 't" where
  "add_err tc None new_err = new_err"
| "add_err tc (Some overall_err) new_err = tadd tc overall_err new_err"

subsection \<open>update\<close>

text \<open>\<^verbatim>\<open>cudaify = lambda x: x.cuda() if isCuda else x\<close>\<close>

definition cudaify :: "('t, 'c) torch \<Rightarrow> bool \<Rightarrow> 't \<Rightarrow> 't" where
  "cudaify tc isCuda x = (if isCuda then cuda tc x else x)"

text \<open>\<^verbatim>\<open>range(T - 2, -1, -1)\<close>: \<open>T - 2, \<dots>, 0\<close>, empty when \<open>T < 2\<close>.\<close>

definition range_down :: "nat \<Rightarrow> nat list" where
  "range_down T = rev [0 ..< T - 1]"

text \<open>
  The body of the loop at time \<open>t\<close>, from \<^verbatim>\<open>bht = batch.hist(t)\<close> to
  \<^verbatim>\<open>tot_err += err.data\<close>. It returns the new \<^verbatim>\<open>tot_err\<close>.
\<close>

definition loop_body ::
  "('h, 's, 't, 'c, 'w, 'x) collab \<Rightarrow> ('t, 'c) torch \<Rightarrow> string \<Rightarrow> bool \<Rightarrow> nat \<Rightarrow>
   't option \<Rightarrow> ('t option, 'h, 's, 't, 'c, 'w, 'x) prog" where
  "loop_body env tc value_node isCuda t tot_err =
     bnd get_batch (\<lambda>b.
     let bht = hist env b (int t) in
     bnd (call (forward env bht) (CallModel bht)) (\<lambda>state_curr.
     bnd (getitem state_curr value_node) (\<lambda>v.
     let V = squeeze tc v in
     bnd get_batch (\<lambda>b1.
     bnd (index_at (batch_r b1) t) (\<lambda>rt.
     bnd get_batch (\<lambda>b2.
     bnd (index_at (batch_terminal b2) t) (\<lambda>tt.
     let d = py_dict [(''r'', cudaify tc isCuda rt), (''terminal'', tt)] in
     bnd (call (dr_feed env d) (DRFeed d)) (\<lambda>R.
     let adv = tsub tc R (data tc V) in
     bnd (call (pg_feed env adv state_curr bht bht) (PGFeed adv state_curr bht bht))
       (\<lambda>policy_err.
     let err = add_err tc None policy_err;
         vd = py_dict [(value_node, V), (''target'', R)] in
     bnd (call (vm_feed env vd) (VMFeed vd)) (\<lambda>value_err.
     let err = add_err tc (Some err) value_err in
     bnd (call (backward env err) (\<lambda>_. Backward err)) (\<lambda>_.
     let tot_err = (case tot_err of None \<Rightarrow> zeros_like tc (data tc err) | Some e \<Rightarrow> e) in
     ret (Some (tadd tc tot_err (data tc err))))))))))))))"

text \<open>\<^verbatim>\<open>for t in range(T - 2, -1, -1): ...\<close>, over the list of the times left.\<close>

fun loop ::
  "('h, 's, 't, 'c, 'w, 'x) collab \<Rightarrow> ('t, 'c) torch \<Rightarrow> string \<Rightarrow> bool \<Rightarrow> nat list \<Rightarrow>
   't option \<Rightarrow> ('t option, 'h, 's, 't, 'c, 'w, 'x) prog" where
  "loop env tc value_node isCuda [] tot_err = ret tot_err"
| "loop env tc value_node isCuda (t # ts) tot_err =
     bnd (loop_body env tc value_node isCuda t tot_err) (loop env tc value_node isCuda ts)"

text \<open>
  The last statement, \<^verbatim>\<open>stats["cost"].feed(tot_err[0] / (T - 1))\<close>: Python evaluates
  \<^verbatim>\<open>stats["cost"]\<close>, then the argument, then calls \<^verbatim>\<open>feed\<close>.
\<close>

definition report ::
  "('h, 's, 't, 'c, 'w, 'x) collab \<Rightarrow> ('t, 'c) torch \<Rightarrow> nat \<Rightarrow> 't option \<Rightarrow>
   (unit, 'h, 's, 't, 'c, 'w, 'x) prog" where
  "report env tc T tot_err =
     bnd (call (stats_getitem env ''cost'') (\<lambda>_. StatsGet ''cost'')) (\<lambda>_.
     bnd (case tot_err of
            None \<Rightarrow> throw TypeError
          | Some e \<Rightarrow> ret (div_int tc (index0 tc e) (int T - 1))) (\<lambda>c.
     call (stats_feed env ''cost'' c) (\<lambda>_. StatsFeed ''cost'' c)))"

text \<open>
  The statements before the loop: the forward pass at \<open>T - 1\<close>, the placement test and
  \<^verbatim>\<open>setR\<close>. They return \<open>T\<close> and \<^verbatim>\<open>isCuda\<close>.
\<close>

definition prelude ::
  "('h, 's, 't, 'c, 'w, 'x) collab \<Rightarrow> ('t, 'c) torch \<Rightarrow> string \<Rightarrow>
   (nat \<times> bool, 'h, 's, 't, 'c, 'w, 'x) prog" where
  "prelude env tc value_node =
     bnd get_batch (\<lambda>b.
     let T = length (batch_s b) in
     bnd get_batch (\<lambda>b'.
     let h = hist env b' (int T - 1) in
     bnd (call (forward env h) (CallModel h)) (\<lambda>state_curr.
     bnd (getitem state_curr value_node) (\<lambda>v.
     let isCuda = is_cuda tc v in
     bnd (getitem state_curr value_node) (\<lambda>v'.
     let R0 = data tc (squeeze tc v') in
     bnd (call (setR env R0) (\<lambda>_. SetR R0)) (\<lambda>_.
     ret (T, isCuda)))))))"

definition update ::
  "('h, 's, 't, 'c, 'w, 'x) collab \<Rightarrow> ('t, 'c) torch \<Rightarrow> string \<Rightarrow>
   (unit, 'h, 's, 't, 'c, 'w, 'x) prog" where
  "update env tc value_node =
     bnd (prelude env tc value_node) (\<lambda>(T, isCuda).
     bnd (loop env tc value_node isCuda (range_down T) None) (\<lambda>tot_err.
     report env tc T tot_err))"

text \<open>One call of \<^verbatim>\<open>update\<close> on a batch, from a given world, with nothing recorded yet.\<close>

definition run ::
  "('h, 's, 't, 'c, 'w, 'x) collab \<Rightarrow> ('t, 'c) torch \<Rightarrow> string \<Rightarrow> ('s, 't) batch \<Rightarrow> 'w \<Rightarrow>
   ('x error + unit) \<times> ('h, 's, 't, 'c, 'w, 'x) state" where
  "run env tc value_node b w = update env tc value_node \<lparr>batch = b, world = w, trace = []\<rparr>"

subsection \<open>The calls of a run\<close>

text \<open>
  The calls of one completed iteration at time \<open>t\<close>, when the model returned \<open>out\<close>
  with \<open>out[value_node] = v\<close>, the return estimator \<open>R\<close>, the policy-gradient
  objective the loss \<open>p\<close> and the value matcher the loss \<open>q\<close>.
\<close>

definition step_calls ::
  "('h, 's, 't, 'c, 'w, 'x) collab \<Rightarrow> ('t, 'c) torch \<Rightarrow> string \<Rightarrow> bool \<Rightarrow> ('s, 't) batch \<Rightarrow> nat \<Rightarrow>
   't dict \<Rightarrow> 't \<Rightarrow> 't \<Rightarrow> 't \<Rightarrow> 't \<Rightarrow> ('h, 't, 'c, 'x) event list" where
  "step_calls env tc value_node isCuda b t out v R p q =
     (let bht = hist env b (int t);
          V = squeeze tc v;
          d = py_dict [(''r'', cudaify tc isCuda (batch_r b ! t)), (''terminal'', batch_terminal b ! t)];
          adv = tsub tc R (data tc V);
          vd = py_dict [(value_node, V), (''target'', R)]
      in [CallModel bht out, DRFeed d R, PGFeed adv out bht bht p, VMFeed vd q,
          Backward (tadd tc p q)])"

text \<open>\<^verbatim>\<open>tot_err\<close> after an iteration whose combined error is \<open>err\<close>.\<close>

definition next_tot :: "('t, 'c) torch \<Rightarrow> 't option \<Rightarrow> 't \<Rightarrow> 't" where
  "next_tot tc tot err = tadd tc (case tot of None \<Rightarrow> zeros_like tc (data tc err) | Some e \<Rightarrow> e) (data tc err)"

text \<open>
  An iteration that does not complete: one of its five calls raises after \<open>k\<close> of them
  returned, or the model output has no \<^verbatim>\<open>value_node\<close>, or the batch has no entry at
  \<open>t\<close>. \<open>evs\<close> are the calls recorded, \<open>e\<close> is what propagates.
\<close>

inductive step_fails ::
  "('h, 's, 't, 'c, 'w, 'x) collab \<Rightarrow> ('t, 'c) torch \<Rightarrow> string \<Rightarrow> bool \<Rightarrow> ('s, 't) batch \<Rightarrow> nat \<Rightarrow>
   ('h, 't, 'c, 'x) event list \<Rightarrow> 'x error \<Rightarrow> bool"
  for env tc value_node isCuda b t where
    raised: "k < 5 \<Longrightarrow>
       (1 \<le> k \<longrightarrow> map_of out value_node = Some v \<and> t < length (batch_r b) \<and>
          t < length (batch_terminal b)) \<Longrightarrow>
       step_fails env tc value_node isCuda b t
         (take k (step_calls env tc value_node isCuda b t out v R p q) @ [Raise x]) (Raised x)"
  | no_key: "map_of out value_node = None \<Longrightarrow>
       step_fails env tc value_node isCuda b t [CallModel (hist env b (int t)) out]
         (KeyError value_node)"
  | no_index: "map_of out value_node = Some v \<Longrightarrow>
       \<not> (t < length (batch_r b) \<and> t < length (batch_terminal b)) \<Longrightarrow>
       step_fails env tc value_node isCuda b t [CallModel (hist env b (int t)) out] IndexError"

text \<open>
  The loop over the times \<open>ts\<close>, entered with \<^verbatim>\<open>tot_err = tot\<close>: the calls it records
  and how it ends (the final \<^verbatim>\<open>tot_err\<close>, or the exception of the iteration that failed).
\<close>

inductive loop_runs ::
  "('h, 's, 't, 'c, 'w, 'x) collab \<Rightarrow> ('t, 'c) torch \<Rightarrow> string \<Rightarrow> bool \<Rightarrow> ('s, 't) batch \<Rightarrow>
   nat list \<Rightarrow> 't option \<Rightarrow> ('h, 't, 'c, 'x) event list \<Rightarrow> 'x error + 't option \<Rightarrow> bool"
  for env tc value_node isCuda b where
    finished: "loop_runs env tc value_node isCuda b [] tot [] (Inr tot)"
  | iteration: "map_of out value_node = Some v \<Longrightarrow> t < length (batch_r b) \<Longrightarrow>
       t < length (batch_terminal b) \<Longrightarrow>
       loop_runs env tc value_node isCuda b ts (Some (next_tot tc tot (tadd tc p q))) evs res \<Longrightarrow>
       loop_runs env tc value_node isCuda b (t # ts) tot
         (step_calls env tc value_node isCuda b t out v R p q @ evs) res"
  | aborted: "step_fails env tc value_node isCuda b t evs e \<Longrightarrow>
       loop_runs env tc value_node isCuda b (t # ts) tot evs (Inl e)"

text \<open>The statements before the loop, when they do not complete.\<close>

inductive prelude_fails ::
  "('h, 's, 't, 'c, 'w, 'x) collab \<Rightarrow> ('t, 'c) torch \<Rightarrow> string \<Rightarrow> ('s, 't) batch \<Rightarrow>
   ('h, 't, 'c, 'x) event list \<Rightarrow> 'x error \<Rightarrow> bool"
  for env tc value_node b where
    forward_raised: "prelude_fails env tc value_node b [Raise x] (Raised x)"
  | no_value: "map_of out value_node = None \<Longrightarrow>
       prelude_fails env tc value_node b
         [CallModel (hist env b (int (length (batch_s b)) - 1)) out] (KeyError value_node)"
  | setR_raised: "map_of out value_node = Some v \<Longrightarrow>
       prelude_fails env tc value_node b
         [CallModel (hist env b (int (length (batch_s b)) - 1)) out, Raise x] (Raised x)"

text \<open>The calls before the loop, when they complete.\<close>

definition prelude_calls ::
  "('h, 's, 't, 'c, 'w, 'x) collab \<Rightarrow> ('t, 'c) torch \<Rightarrow> ('s, 't) batch \<Rightarrow> 't dict \<Rightarrow> 't \<Rightarrow>
   ('h, 't, 'c, 'x) event list" where
  "prelude_calls env tc b out v =
     [CallModel (hist env b (int (length (batch_s b)) - 1)) out, SetR (data tc (squeeze tc v))]"

text \<open>The last statement, entered with \<^verbatim>\<open>tot_err = tot\<close>.\<close>

inductive report_runs ::
  "('t, 'c) torch \<Rightarrow> nat \<Rightarrow> 't option \<Rightarrow> ('h, 't, 'c, 'x) event list \<Rightarrow> 'x error + unit \<Rightarrow> bool"
  for tc T where
    lookup_raised: "report_runs tc T tot [Raise x] (Inl (Raised x))"
  | none_subscript: "report_runs tc T None [StatsGet ''cost''] (Inl TypeError)"
  | fed: "report_runs tc T (Some e)
       [StatsGet ''cost'', StatsFeed ''cost'' (div_int tc (index0 tc e) (int T - 1))] (Inr ())"
  | feed_raised: "report_runs tc T (Some e) [StatsGet ''cost'', Raise x] (Inl (Raised x))"

text \<open>
  A whole call of \<^verbatim>\<open>update\<close> on the batch \<open>b\<close>: the calls it records and its result.
\<close>

inductive update_runs ::
  "('h, 's, 't, 'c, 'w, 'x) collab \<Rightarrow> ('t, 'c) torch \<Rightarrow> string \<Rightarrow> ('s, 't) batch \<Rightarrow>
   ('h, 't, 'c, 'x) event list \<Rightarrow> 'x error + unit \<Rightarrow> bool"
  for env tc value_node b where
    prelude_aborted: "prelude_fails env tc value_node b evs e \<Longrightarrow>
       update_runs env tc value_node b evs (Inl e)"
  | loop_aborted: "map_of out value_node = Some v \<Longrightarrow>
       loop_runs env tc value_node (is_cuda tc v) b (range_down (length (batch_s b))) None
         levs (Inl e) \<Longrightarrow>
       update_runs env tc value_node b (prelude_calls env tc b out v @ levs) (Inl e)"
  | loop_completed: "map_of out value_node = Some v \<Longrightarrow>
       loop_runs env tc value_node (is_cuda tc v) b (range_down (length (batch_s b))) None
         levs (Inr tot) \<Longrightarrow>
       report_runs tc (length (batch_s b)) tot revs res \<Longrightarrow>
       update_runs env tc value_node b (prelude_calls env tc b out v @ levs @ revs) res"

subsection \<open>Reading a trace\<close>

text \<open>
  The calls of each kind recorded in a trace, in the order they were made: the forward
  passes of the model with their outputs, the values given to \<^verbatim>\<open>setR\<close>, the dictionaries
  fed to the return estimator with the returns it gave back, and so on.
\<close>

fun model_of :: "('h, 't, 'c, 'x) event \<Rightarrow> ('h \<times> 't dict) list" where
  "model_of (CallModel h out) = [(h, out)]"
| "model_of _ = []"

fun setR_of :: "('h, 't, 'c, 'x) event \<Rightarrow> 't list" where
  "setR_of (SetR R0) = [R0]"
| "setR_of _ = []"

fun dr_feed_of :: "('h, 't, 'c, 'x) event \<Rightarrow> ('t dict \<times> 't) list" where
  "dr_feed_of (DRFeed d R) = [(d, R)]"
| "dr_feed_of _ = []"

fun pg_feed_of :: "('h, 't, 'c, 'x) event \<Rightarrow> ('t \<times> 't dict \<times> 'h \<times> 'h \<times> 't) list" where
  "pg_feed_of (PGFeed adv out h h' p) = [(adv, out, h, h', p)]"
| "pg_feed_of _ = []"

fun vm_feed_of :: "('h, 't, 'c, 'x) event \<Rightarrow> ('t dict \<times> 't) list" where
  "vm_feed_of (VMFeed d q) = [(d, q)]"
| "vm_feed_of _ = []"

fun backward_of :: "('h, 't, 'c, 'x) event \<Rightarrow> 't list" where
  "backward_of (Backward e) = [e]"
| "backward_of _ = []"

fun stats_feed_of :: "('h, 't, 'c, 'x) event \<Rightarrow> (string \<times> 'c) list" where
  "stats_feed_of (StatsFeed k c) = [(k, c)]"
| "stats_feed_of _ = []"

fun raise_of :: "('h, 't, 'c, 'x) event \<Rightarrow> 'x list" where
  "raise_of (Raise x) = [x]"
| "raise_of _ = []"

definition model_calls where "model_calls tr = concat (map model_of tr)"
definition setR_calls where "setR_calls tr = concat (map setR_of tr)"
definition dr_feeds where "dr_feeds tr = concat (map dr_feed_of tr)"
definition pg_feeds where "pg_feeds tr = concat (map pg_feed_of tr)"
definition vm_feeds where "vm_feeds tr = concat (map vm_feed_of tr)"
definition backward_calls where "backward_calls tr = concat (map backward_of tr)"
definition stats_feeds where "stats_feeds tr = concat (map stats_feed_of tr)"
definition raises where "raises tr = concat (map raise_of tr)"

text \<open>
  A result that is an exception update did not raise itself: one that came out of a
  collaborator, a missing key or an index out of range. The \<open>TypeError\<close> of the last
  statement is update's own.
\<close>

fun callee_failed :: "'x error + 'a \<Rightarrow> bool" where
  "callee_failed (Inl TypeError) = False"
| "callee_failed (Inl e) = True"
| "callee_failed (Inr a) = False"

text \<open>The loss a policy-gradient call returned.\<close>

definition pg_loss :: "'t \<times> 't dict \<times> 'h \<times> 'h \<times> 't \<Rightarrow> 't" where
  "pg_loss c = (case c of (adv, out, h, h', p) \<Rightarrow> p)"

text \<open>
  The combined errors of the iterations in a trace: the policy-gradient loss plus the
  value-matcher loss of the same iteration.
\<close>

definition combined_errors :: "('t, 'c) torch \<Rightarrow> ('h, 't, 'c, 'x) event list \<Rightarrow> 't list" where
  "combined_errors tc tr = map2 (tadd tc) (map pg_loss (pg_feeds tr)) (map snd (vm_feeds tr))"

text \<open>\<^verbatim>\<open>tot_err += err.data\<close> over the errors \<open>errs\<close>, from \<open>z\<close>.\<close>

definition accumulate :: "('t, 'c) torch \<Rightarrow> 't \<Rightarrow> 't list \<Rightarrow> 't" where
  "accumulate tc z errs = foldl (\<lambda>a err. tadd tc a (data tc err)) z errs"




text \<open>
  The placement decision of a trace: whether the value output of its first forward pass
  (the one at \<open>T - 1\<close>) is on the accelerator.
\<close>

definition placement :: "('t, 'c) torch \<Rightarrow> string \<Rightarrow> ('h, 't, 'c, 'x) event list \<Rightarrow> bool" where
  "placement tc value_node tr =
     (case model_calls tr of
        [] \<Rightarrow> False
      | (h, out) # _ \<Rightarrow> (case map_of out value_node of None \<Rightarrow> False | Some v \<Rightarrow> is_cuda tc v))"

text \<open>
  The dictionary \<^verbatim>\<open>dict(r=cudaify(batch["r"][t]), terminal=batch["terminal"][t])\<close> for
  the placement decision \<open>isCuda\<close>.
\<close>

definition fed_at :: "('t, 'c) torch \<Rightarrow> bool \<Rightarrow> ('s, 't) batch \<Rightarrow> nat \<Rightarrow> 't dict" where
  "fed_at tc isCuda b t =
     py_dict [(''r'', cudaify tc isCuda (batch_r b ! t)), (''terminal'', batch_terminal b ! t)]"

text \<open>
  How a trace and a result go together where exceptions are concerned: a result that is
  the exception \<open>x\<close> of a collaborator comes with a trace whose last entry is that
  raise, the only one; any other result comes with a trace without a raise.
\<close>

definition raise_shape :: "('h, 't, 'c, 'x) event list \<Rightarrow> 'x error + 'a \<Rightarrow> bool" where
  "raise_shape evs res =
     (case res of
        Inl (Raised x) \<Rightarrow> (\<exists>pre. evs = pre @ [Raise x] \<and> raises pre = [])
      | _ \<Rightarrow> raises evs = [])"








subsection \<open>A small instance\<close>

text \<open>
  Tensors as lists of rationals with a device flag and a flag for carrying a gradient
  graph; a return estimator with discount \<open>99/100\<close> that resets at terminal steps, a
  squared-error value matcher, and a model whose value output depends on the time only.
  With \<open>ex_batch\<close> this is the scenario of the spec: \<open>T = 2\<close>, reward \<open>1\<close> at
  \<open>t = 0\<close>, values \<open>1/2\<close> at \<open>t = 1\<close> and \<open>3/10\<close> at \<open>t = 0\<close>.
\<close>

datatype tensor = Tensor (vals: "rat list") (gpu: bool) (graph: bool)

definition ex_torch :: "(tensor, rat) torch" where
  "ex_torch = \<lparr>
     squeeze = (\<lambda>x. x),
     data = (\<lambda>x. Tensor (vals x) (gpu x) False),
     is_cuda = gpu,
     cuda = (\<lambda>x. Tensor (vals x) True (graph x)),
     tsub = (\<lambda>x y. Tensor (map2 (-) (vals x) (vals y)) (gpu x) (graph x \<or> graph y)),
     tadd = (\<lambda>x y. Tensor (map2 (+) (vals x) (vals y)) (gpu x) (graph x \<or> graph y)),
     zeros_like = (\<lambda>x. Tensor (map (\<lambda>_. 0) (vals x)) (gpu x) False),
     index0 = (\<lambda>x. hd (vals x)),
     div_int = (\<lambda>c n. c / of_int n) \<rparr>"

record ex_world =
  est_R :: "rat list"
  grad_steps :: nat
  fed :: "(string \<times> rat) list"

definition ex_dr_feed :: "tensor dict \<Rightarrow> ex_world \<Rightarrow> (string + tensor) \<times> ex_world" where
  "ex_dr_feed d w =
     (case (map_of d ''r'', map_of d ''terminal'') of
        (Some r, Some term) \<Rightarrow>
          (let R = map (\<lambda>(ri, ti, Ri). if ti \<noteq> 0 then ri else ri + (99 / 100) * Ri)
                     (zip (vals r) (zip (vals term) (est_R w)))
           in (Inr (Tensor R (gpu r) False), w\<lparr>est_R := R\<rparr>))
      | _ \<Rightarrow> (Inl ''feed: bad input'', w))"

definition ex_env ::
  "(int \<Rightarrow> rat list) \<Rightarrow> bool \<Rightarrow> (int, unit, tensor, rat, ex_world, string) collab" where
  "ex_env vf on_gpu = \<lparr>
     hist = (\<lambda>b t. t),
     forward = (\<lambda>h w. (Inr [(''pi'', Tensor [1 / 2, 1 / 2] on_gpu True),
                             (''V'', Tensor (vf h) on_gpu True)], w)),
     setR = (\<lambda>R0 w. (Inr (), w\<lparr>est_R := vals R0\<rparr>)),
     dr_feed = ex_dr_feed,
     pg_feed = (\<lambda>adv out h h' w. (Inr (Tensor [- sum_list (vals adv)] (gpu adv) True), w)),
     vm_feed = (\<lambda>d w.
       (case (map_of d ''V'', map_of d ''target'') of
          (Some V, Some R) \<Rightarrow>
            (Inr (Tensor [sum_list (map2 (\<lambda>x y. (x - y) * (x - y)) (vals V) (vals R))]
                    (gpu V) True), w)
        | _ \<Rightarrow> (Inl ''value matcher: bad input'', w))),
     backward = (\<lambda>e w. (Inr (), w\<lparr>grad_steps := Suc (grad_steps w)\<rparr>)),
     stats_getitem = (\<lambda>k w. (Inr (), w)),
     stats_feed = (\<lambda>k c w. (Inr (), w\<lparr>fed := fed w @ [(k, c)]\<rparr>)) \<rparr>"

definition ex_value :: "int \<Rightarrow> rat list" where
  "ex_value h = (if h = 0 then [3 / 10] else [1 / 2])"

definition ex_batch :: "(unit, tensor) batch" where
  "ex_batch = \<lparr> batch_s = [(), ()],
     batch_r = [Tensor [1] False False, Tensor [0] False False],
     batch_terminal = [Tensor [0] False False, Tensor [0] False False] \<rparr>"

definition ex_world0 :: ex_world where
  "ex_world0 = \<lparr> est_R = [], grad_steps = 0, fed = [] \<rparr>"

text \<open>A batch of three steps, and one of a single step.\<close>

definition ex_batch3 :: "(unit, tensor) batch" where
  "ex_batch3 = \<lparr> batch_s = [(), (), ()],
     batch_r = [Tensor [1] False False, Tensor [0] False False, Tensor [2] False False],
     batch_terminal = [Tensor [0] False False, Tensor [0] False False, Tensor [0] False False] \<rparr>"

definition ex_batch1 :: "(unit, tensor) batch" where
  "ex_batch1 = \<lparr> batch_s = [()], batch_r = [Tensor [1] False False],
     batch_terminal = [Tensor [0] False False] \<rparr>"

text \<open>The same collaborators with a policy-gradient objective that raises.\<close>

definition ex_env_pg_raises :: "(int, unit, tensor, rat, ex_world, string) collab" where
  "ex_env_pg_raises =
     (ex_env ex_value False)\<lparr>pg_feed := (\<lambda>adv out h h' w. (Inl ''shape mismatch'', w))\<rparr>"




subsection \<open>What the collaborators receive\<close>

text \<open>
  The trace is written where update makes a call. To state what the collaborators are
  really called with, each collaborator is made to keep its own record: \<open>recording env\<close>
  behaves as \<open>env\<close> on the world and appends to a list, carried beside the world, every
  call it receives, with what it returned or raised. \<open>received\<close> is that list after one
  call of update.
\<close>

definition record_call ::
  "('w \<Rightarrow> ('x + 'a) \<times> 'w) \<Rightarrow> ('a \<Rightarrow> ('h, 't, 'c, 'x) event) \<Rightarrow>
   'w \<times> ('h, 't, 'c, 'x) event list \<Rightarrow> ('x + 'a) \<times> ('w \<times> ('h, 't, 'c, 'x) event list)" where
  "record_call f ev wl =
     (case f (fst wl) of
        (Inl x, w') \<Rightarrow> (Inl x, (w', snd wl @ [Raise x]))
      | (Inr a, w') \<Rightarrow> (Inr a, (w', snd wl @ [ev a])))"

definition recording ::
  "('h, 's, 't, 'c, 'w, 'x) collab \<Rightarrow>
   ('h, 's, 't, 'c, 'w \<times> ('h, 't, 'c, 'x) event list, 'x) collab" where
  "recording env = \<lparr>
     hist = hist env,
     forward = (\<lambda>h. record_call (forward env h) (CallModel h)),
     setR = (\<lambda>R0. record_call (setR env R0) (\<lambda>_. SetR R0)),
     dr_feed = (\<lambda>d. record_call (dr_feed env d) (DRFeed d)),
     pg_feed = (\<lambda>adv out h h'. record_call (pg_feed env adv out h h') (PGFeed adv out h h')),
     vm_feed = (\<lambda>d. record_call (vm_feed env d) (VMFeed d)),
     backward = (\<lambda>e. record_call (backward env e) (\<lambda>_. Backward e)),
     stats_getitem = (\<lambda>k. record_call (stats_getitem env k) (\<lambda>_. StatsGet k)),
     stats_feed = (\<lambda>k c. record_call (stats_feed env k c) (\<lambda>_. StatsFeed k c)) \<rparr>"

definition received ::
  "('h, 's, 't, 'c, 'w, 'x) collab \<Rightarrow> ('t, 'c) torch \<Rightarrow> string \<Rightarrow> ('s, 't) batch \<Rightarrow> 'w \<Rightarrow>
   ('h, 't, 'c, 'x) event list" where
  "received env tc value_node b w =
     snd (world (snd (run (recording env) tc value_node b (w, []))))"

text \<open>
  A state of update over the recording collaborators mirrors a state over the plain ones
  when both have the same batch and trace, the same world, and the collaborators' record
  is the trace.
\<close>

definition mirrors ::
  "('h, 's, 't, 'c, 'w \<times> ('h, 't, 'c, 'x) event list, 'x) state \<Rightarrow>
   ('h, 's, 't, 'c, 'w, 'x) state \<Rightarrow> bool" where
  "mirrors st' st =
     (batch st' = batch st \<and> trace st' = trace st \<and> world st' = (world st, trace st))"

definition sim ::
  "('a, 'h, 's, 't, 'c, 'w \<times> ('h, 't, 'c, 'x) event list, 'x) prog \<Rightarrow>
   ('a, 'h, 's, 't, 'c, 'w, 'x) prog \<Rightarrow> bool" where
  "sim m' m =
     (\<forall>st' st. mirrors st' st \<longrightarrow> fst (m' st') = fst (m st) \<and> mirrors (snd (m' st')) (snd (m st)))"

section \<open>What a run of update looks like\<close>

subsection \<open>Reading a result off a statement\<close>

lemma bnd_Inr:
  "bnd m f st = (Inr b, st') \<longleftrightarrow> (\<exists>a st1. m st = (Inr a, st1) \<and> f a st1 = (Inr b, st'))"
  by (auto simp: bnd_def split: prod.splits sum.splits)

lemma bnd_Inl:
  "bnd m f st = (Inl e, st') \<longleftrightarrow>
     m st = (Inl e, st') \<or> (\<exists>a st1. m st = (Inr a, st1) \<and> f a st1 = (Inl e, st'))"
  by (auto simp: bnd_def split: prod.splits sum.splits)

lemma call_Inr:
  "call f ev st = (Inr a, st') \<longleftrightarrow>
     (\<exists>w'. f (world st) = (Inr a, w') \<and> st' = st\<lparr>world := w', trace := trace st @ [ev a]\<rparr>)"
  by (auto simp: call_def split: prod.splits sum.splits)

lemma call_Inl:
  "call f ev st = (Inl e, st') \<longleftrightarrow>
     (\<exists>x w'. f (world st) = (Inl x, w') \<and> e = Raised x \<and>
        st' = st\<lparr>world := w', trace := trace st @ [Raise x]\<rparr>)"
  by (auto simp: call_def split: prod.splits sum.splits)

lemma get_batch_Inr: "get_batch st = (Inr b, st') \<longleftrightarrow> b = batch st \<and> st' = st"
  by (auto simp: get_batch_def)

lemma get_batch_Inl: "get_batch st = (Inl e, st') \<longleftrightarrow> False"
  by (auto simp: get_batch_def)

lemma getitem_Inr: "getitem d k st = (Inr v, st') \<longleftrightarrow> map_of d k = Some v \<and> st' = st"
  by (auto simp: getitem_def ret_def throw_def split: option.splits)

lemma getitem_Inl:
  "getitem d k st = (Inl e, st') \<longleftrightarrow> map_of d k = None \<and> e = KeyError k \<and> st' = st"
  by (auto simp: getitem_def ret_def throw_def split: option.splits)

lemma index_at_Inr: "index_at xs t st = (Inr v, st') \<longleftrightarrow> t < length xs \<and> v = xs ! t \<and> st' = st"
  by (auto simp: index_at_def ret_def throw_def)

lemma index_at_Inl:
  "index_at xs t st = (Inl e, st') \<longleftrightarrow> \<not> t < length xs \<and> e = IndexError \<and> st' = st"
  by (auto simp: index_at_def ret_def throw_def)

lemma ret_Inr: "ret a st = (Inr b, st') \<longleftrightarrow> b = a \<and> st' = st"
  by (auto simp: ret_def)

lemma ret_Inl: "ret a st = (Inl e, st') \<longleftrightarrow> False"
  by (auto simp: ret_def)

lemma throw_Inr: "throw e st = (Inr b, st') \<longleftrightarrow> False"
  by (auto simp: throw_def)

lemma throw_Inl: "throw e st = (Inl e', st') \<longleftrightarrow> e' = e \<and> st' = st"
  by (auto simp: throw_def)

lemmas inv_simps = bnd_Inr bnd_Inl call_Inr call_Inl get_batch_Inr get_batch_Inl getitem_Inr
  getitem_Inl index_at_Inr index_at_Inl ret_Inr ret_Inl throw_Inr throw_Inl

subsection \<open>Every run of the code is one of these\<close>

lemma loop_body_Inr:
  assumes "loop_body env tc vn isCuda t tot st = (Inr r, st')"
  shows "\<exists>out v R p q. map_of out vn = Some v \<and> t < length (batch_r (batch st)) \<and>
           t < length (batch_terminal (batch st)) \<and>
           r = Some (next_tot tc tot (tadd tc p q)) \<and> batch st' = batch st \<and>
           trace st' = trace st @ step_calls env tc vn isCuda (batch st) t out v R p q"
  using assms
  by (auto simp: loop_body_def inv_simps Let_def step_calls_def next_tot_def)

lemma loop_body_Inl:
  assumes "loop_body env tc vn isCuda t tot st = (Inl e, st')"
  shows "batch st' = batch st \<and>
         (\<exists>evs. trace st' = trace st @ evs \<and> step_fails env tc vn isCuda (batch st) t evs e)"
proof -
  let ?b = "batch st"
  let ?c = "step_calls env tc vn isCuda ?b t"
  let ?ok = "\<lambda>out v. map_of out vn = Some v \<and> t < length (batch_r ?b) \<and>
       t < length (batch_terminal ?b)"
  let ?F = "step_fails env tc vn isCuda ?b t"
  have cases: "batch st' = batch st \<and>
    ((\<exists>x. e = Raised x \<and> trace st' = trace st @ [Raise x]) \<or>
     (\<exists>out. e = KeyError vn \<and> map_of out vn = None \<and> trace st' = trace st @ [CallModel (hist env ?b (int t)) out]) \<or>
     (\<exists>out v. e = IndexError \<and> map_of out vn = Some v \<and> \<not> (t < length (batch_r ?b) \<and> t < length (batch_terminal ?b)) \<and>
         trace st' = trace st @ [CallModel (hist env ?b (int t)) out]) \<or>
     (\<exists>out v x. e = Raised x \<and> ?ok out v \<and> trace st' = trace st @ take 1 (?c out v undefined undefined undefined) @ [Raise x]) \<or>
     (\<exists>out v R x. e = Raised x \<and> ?ok out v \<and> trace st' = trace st @ take 2 (?c out v R undefined undefined) @ [Raise x]) \<or>
     (\<exists>out v R p x. e = Raised x \<and> ?ok out v \<and> trace st' = trace st @ take 3 (?c out v R p undefined) @ [Raise x]) \<or>
     (\<exists>out v R p q x. e = Raised x \<and> ?ok out v \<and> trace st' = trace st @ take 4 (?c out v R p q) @ [Raise x]))"
    using assms
    by (auto simp: loop_body_def inv_simps Let_def step_calls_def)
  then have b: "batch st' = batch st" by simp
  from cases have "\<exists>evs. trace st' = trace st @ evs \<and> ?F evs e"
  proof (elim conjE disjE exE)
    fix x assume *: "e = Raised x" "trace st' = trace st @ [Raise x]"
    have "?F (take 0 (?c undefined undefined undefined undefined undefined) @ [Raise x]) (Raised x)"
      by (rule step_fails.raised) simp_all
    with * show ?thesis by simp
  next
    fix out assume "e = KeyError vn" "map_of out vn = None"
      "trace st' = trace st @ [CallModel (hist env ?b (int t)) out]"
    then show ?thesis by (simp add: step_fails.no_key)
  next
    fix out v assume "e = IndexError" "map_of out vn = Some v"
      "\<not> (t < length (batch_r ?b) \<and> t < length (batch_terminal ?b))"
      "trace st' = trace st @ [CallModel (hist env ?b (int t)) out]"
    then show ?thesis by (simp add: step_fails.no_index)
  next
    fix out v x assume *: "e = Raised x" "map_of out vn = Some v" "t < length (batch_r ?b)" "t < length (batch_terminal ?b)"
      "trace st' = trace st @ take 1 (?c out v undefined undefined undefined) @ [Raise x]"
    then have "?F (take 1 (?c out v undefined undefined undefined) @ [Raise x]) (Raised x)"
      by (intro step_fails.raised) simp_all
    with * show ?thesis by simp
  next
    fix out v R x assume *: "e = Raised x" "map_of out vn = Some v" "t < length (batch_r ?b)" "t < length (batch_terminal ?b)"
      "trace st' = trace st @ take 2 (?c out v R undefined undefined) @ [Raise x]"
    then have "?F (take 2 (?c out v R undefined undefined) @ [Raise x]) (Raised x)"
      by (intro step_fails.raised) simp_all
    with * show ?thesis by simp
  next
    fix out v R p x assume *: "e = Raised x" "map_of out vn = Some v" "t < length (batch_r ?b)" "t < length (batch_terminal ?b)"
      "trace st' = trace st @ take 3 (?c out v R p undefined) @ [Raise x]"
    then have "?F (take 3 (?c out v R p undefined) @ [Raise x]) (Raised x)"
      by (intro step_fails.raised) simp_all
    with * show ?thesis by simp
  next
    fix out v R p q x assume *: "e = Raised x" "map_of out vn = Some v" "t < length (batch_r ?b)" "t < length (batch_terminal ?b)"
      "trace st' = trace st @ take 4 (?c out v R p q) @ [Raise x]"
    then have "?F (take 4 (?c out v R p q) @ [Raise x]) (Raised x)"
      by (intro step_fails.raised) simp_all
    with * show ?thesis by simp
  qed
  with b show ?thesis by simp
qed

lemma loop_sound:
  assumes "loop env tc vn isCuda ts tot st = (res, st')"
  shows "batch st' = batch st \<and>
         (\<exists>evs. trace st' = trace st @ evs \<and> loop_runs env tc vn isCuda (batch st) ts tot evs res)"
  using assms
proof (induction ts arbitrary: tot st)
  case Nil
  then show ?case by (auto simp: ret_def intro: loop_runs.finished)
next
  case (Cons t ts)
  show ?case
  proof (cases "loop_body env tc vn isCuda t tot st")
    case (Pair r1 st1)
    show ?thesis
    proof (cases r1)
      case (Inl e)
      with Pair Cons.prems have eq: "res = Inl e" "st' = st1"
        by (auto simp: bnd_def)
      from loop_body_Inl[OF Pair[unfolded Inl]] eq show ?thesis
        by (auto intro: loop_runs.aborted)
    next
      case (Inr tot1)
      with Pair Cons.prems have rest: "loop env tc vn isCuda ts tot1 st1 = (res, st')"
        by (auto simp: bnd_def)
      from loop_body_Inr[OF Pair[unfolded Inr]] obtain out v R p q where
        ok: "map_of out vn = Some v" "t < length (batch_r (batch st))"
          "t < length (batch_terminal (batch st))" and
        tot1: "tot1 = Some (next_tot tc tot (tadd tc p q))" and
        b1: "batch st1 = batch st" and
        tr1: "trace st1 = trace st @ step_calls env tc vn isCuda (batch st) t out v R p q"
        by blast
      from Cons.IH[OF rest] b1 obtain evs where
        b': "batch st' = batch st" and tr': "trace st' = trace st1 @ evs" and
        lr: "loop_runs env tc vn isCuda (batch st) ts tot1 evs res"
        by auto
      have "loop_runs env tc vn isCuda (batch st) (t # ts) tot
              (step_calls env tc vn isCuda (batch st) t out v R p q @ evs) res"
        using ok lr unfolding tot1 by (rule loop_runs.iteration)
      with b' tr' tr1 show ?thesis by auto
    qed
  qed
qed

lemma prelude_Inr:
  assumes "prelude env tc vn st = (Inr r, st')"
  shows "\<exists>out v. map_of out vn = Some v \<and> r = (length (batch_s (batch st)), is_cuda tc v) \<and>
           batch st' = batch st \<and> trace st' = trace st @ prelude_calls env tc (batch st) out v"
  using assms by (auto simp: prelude_def inv_simps Let_def prelude_calls_def)

lemma prelude_Inl:
  assumes "prelude env tc vn st = (Inl e, st')"
  shows "batch st' = batch st \<and>
         (\<exists>evs. trace st' = trace st @ evs \<and> prelude_fails env tc vn (batch st) evs e)"
  using assms
  by (auto simp: prelude_def inv_simps Let_def
      intro: prelude_fails.forward_raised prelude_fails.no_value prelude_fails.setR_raised)

lemma report_sound:
  assumes "report env tc T tot st = (res, st')"
  shows "batch st' = batch st \<and>
         (\<exists>evs. trace st' = trace st @ evs \<and> report_runs tc T tot evs res)"
proof (cases res)
  case (Inl e)
  with assms show ?thesis
    by (auto simp: report_def inv_simps split: option.splits
        intro: report_runs.lookup_raised report_runs.none_subscript report_runs.feed_raised)
next
  case (Inr u)
  with assms show ?thesis
    by (auto simp: report_def inv_simps split: option.splits intro: report_runs.fed)
qed

lemma update_sound:
  assumes "update env tc vn st = (res, st')"
  shows "batch st' = batch st \<and>
         (\<exists>evs. trace st' = trace st @ evs \<and> update_runs env tc vn (batch st) evs res)"
proof (cases "prelude env tc vn st")
  case (Pair r0 st0)
  show ?thesis
  proof (cases r0)
    case (Inl e)
    with Pair assms have "res = Inl e" "st' = st0"
      by (auto simp: update_def bnd_def)
    with prelude_Inl[OF Pair[unfolded Inl]] show ?thesis
      by (auto intro: update_runs.prelude_aborted)
  next
    case (Inr r)
    from prelude_Inr[OF Pair[unfolded Inr]] obtain out v where
      v: "map_of out vn = Some v" and r: "r = (length (batch_s (batch st)), is_cuda tc v)" and
      b0: "batch st0 = batch st" and
      tr0: "trace st0 = trace st @ prelude_calls env tc (batch st) out v"
      by blast
    let ?T = "length (batch_s (batch st))"
    let ?l = "loop env tc vn (is_cuda tc v) (range_down ?T) None st0"
    show ?thesis
    proof (cases ?l)
      case lp: (Pair r1 st1)
      from loop_sound[OF lp] b0 obtain levs where
        b1: "batch st1 = batch st" and tr1: "trace st1 = trace st0 @ levs" and
        lr: "loop_runs env tc vn (is_cuda tc v) (batch st) (range_down ?T) None levs r1"
        by auto
      show ?thesis
      proof (cases r1)
        case (Inl e)
        with Pair Inr r lp assms have "res = Inl e" "st' = st1"
          by (auto simp: update_def bnd_def)
        with b1 tr1 tr0 update_runs.loop_aborted[OF v lr[unfolded Inl]] show ?thesis
          by auto
      next
        case tot: (Inr tot)
        with Pair Inr r lp assms have "report env tc ?T tot st1 = (res, st')"
          by (auto simp: update_def bnd_def)
        from report_sound[OF this] b1 obtain revs where
          "batch st' = batch st" "trace st' = trace st1 @ revs" "report_runs tc ?T tot revs res"
          by auto
        with tr1 tr0 update_runs.loop_completed[OF v lr[unfolded tot]] show ?thesis
          by auto
      qed
    qed
  qed
qed

lemma run_sound:
  assumes "run env tc vn b w = (res, st)"
  shows "batch st = b \<and> update_runs env tc vn b (trace st) res"
  using update_sound[OF assms[unfolded run_def]] by simp

section \<open>Properties of update\<close>

subsection \<open>Tools\<close>

lemma model_calls_simps:
  "model_calls [] = []"
  "model_calls (e # es) = model_of e @ model_calls es"
  "model_calls (xs @ ys) = model_calls xs @ model_calls ys"
  by (simp_all add: model_calls_def)

lemma setR_calls_simps:
  "setR_calls [] = []"
  "setR_calls (e # es) = setR_of e @ setR_calls es"
  "setR_calls (xs @ ys) = setR_calls xs @ setR_calls ys"
  by (simp_all add: setR_calls_def)

lemma dr_feeds_simps:
  "dr_feeds [] = []"
  "dr_feeds (e # es) = dr_feed_of e @ dr_feeds es"
  "dr_feeds (xs @ ys) = dr_feeds xs @ dr_feeds ys"
  by (simp_all add: dr_feeds_def)

lemma pg_feeds_simps:
  "pg_feeds [] = []"
  "pg_feeds (e # es) = pg_feed_of e @ pg_feeds es"
  "pg_feeds (xs @ ys) = pg_feeds xs @ pg_feeds ys"
  by (simp_all add: pg_feeds_def)

lemma vm_feeds_simps:
  "vm_feeds [] = []"
  "vm_feeds (e # es) = vm_feed_of e @ vm_feeds es"
  "vm_feeds (xs @ ys) = vm_feeds xs @ vm_feeds ys"
  by (simp_all add: vm_feeds_def)

lemma backward_calls_simps:
  "backward_calls [] = []"
  "backward_calls (e # es) = backward_of e @ backward_calls es"
  "backward_calls (xs @ ys) = backward_calls xs @ backward_calls ys"
  by (simp_all add: backward_calls_def)

lemma stats_feeds_simps:
  "stats_feeds [] = []"
  "stats_feeds (e # es) = stats_feed_of e @ stats_feeds es"
  "stats_feeds (xs @ ys) = stats_feeds xs @ stats_feeds ys"
  by (simp_all add: stats_feeds_def)

lemma raises_simps:
  "raises [] = []"
  "raises (e # es) = raise_of e @ raises es"
  "raises (xs @ ys) = raises xs @ raises ys"
  by (simp_all add: raises_def)

lemmas proj_simps = model_calls_simps setR_calls_simps dr_feeds_simps pg_feeds_simps vm_feeds_simps backward_calls_simps stats_feeds_simps raises_simps

lemmas run_simps = run_def update_def prelude_def loop_body_def report_def bnd_def call_def
  get_batch_def getitem_def index_at_def ret_def throw_def range_down_def py_dict_def
  cudaify_def Let_def

lemmas ex_simps = ex_env_def ex_torch_def ex_batch_def ex_world0_def ex_value_def ex_dr_feed_def

lemma less5: "k < 5 \<Longrightarrow> k = 0 \<or> k = 1 \<or> k = 2 \<or> k = 3 \<or> k = (4::nat)"
  by arith

lemma foldl_next_tot_Some:
  "foldl (\<lambda>tot err. Some (next_tot tc tot err)) (Some a) errs = Some (accumulate tc a errs)"
  by (induction errs arbitrary: a) (simp_all add: next_tot_def accumulate_def)

lemma foldl_next_tot_None:
  "foldl (\<lambda>tot err. Some (next_tot tc tot err)) None (e # es) =
     Some (accumulate tc (zeros_like tc (data tc e)) (e # es))"
  by (simp add: foldl_next_tot_Some) (simp add: next_tot_def accumulate_def)

lemma loop_runs_Inr:
  assumes "loop_runs env tc vn isCuda b ts tot evs res" "res = Inr tot'"
  shows "tot' = foldl (\<lambda>tot err. Some (next_tot tc tot err)) tot (backward_calls evs) \<and>
         length (backward_calls evs) = length ts \<and>
         combined_errors tc evs = backward_calls evs \<and>
         length (pg_feeds evs) = length ts \<and> length (vm_feeds evs) = length ts \<and>
         length (dr_feeds evs) = length ts \<and>
         map fst (model_calls evs) = map (\<lambda>t. hist env b (int t)) ts \<and>
         raises evs = [] \<and> stats_feeds evs = [] \<and> setR_calls evs = []"
  using assms
  by (induction rule: loop_runs.induct)
     (auto simp: proj_simps step_calls_def Let_def combined_errors_def pg_loss_def)

lemma range_down_length: "length (range_down T) = T - 1"
  by (simp add: range_down_def)

lemma step_fails_callee: "step_fails env tc vn isCuda b t evs e \<Longrightarrow> callee_failed (Inl e)"
  by (erule step_fails.cases) simp_all

lemma loop_runs_Inl:
  assumes "loop_runs env tc vn isCuda b ts tot evs res" "res = Inl e"
  shows "callee_failed (Inl e)"
  using assms by (induction rule: loop_runs.induct) (auto dest: step_fails_callee)

lemma prelude_fails_callee: "prelude_fails env tc vn b evs e \<Longrightarrow> callee_failed (Inl e)"
  by (erule prelude_fails.cases) simp_all

lemma callee_failed_TypeError: "callee_failed (Inl e) \<Longrightarrow> e \<noteq> TypeError"
  by auto

lemma loop_runs_tot:
  assumes "loop_runs env tc vn isCuda b ts None evs (Inr tot)" "ts \<noteq> []"
  shows "\<exists>e es. backward_calls evs = e # es \<and>
           tot = Some (accumulate tc (zeros_like tc (data tc e)) (e # es))"
proof -
  from loop_runs_Inr[OF assms(1) refl] have
    tot: "tot = foldl (\<lambda>tot err. Some (next_tot tc tot err)) None (backward_calls evs)" and
    len: "length (backward_calls evs) = length ts"
    by blast+
  from len assms(2) obtain e es where "backward_calls evs = e # es"
    by (cases "backward_calls evs") auto
  with tot show ?thesis by (simp only: foldl_next_tot_None) blast
qed



lemma step_fails_any:
  assumes "step_fails env tc vn isCuda b t evs e"
  shows "setR_calls evs = [] \<and> stats_feeds evs = [] \<and>
         prefix (map fst (model_calls evs)) [hist env b (int t)] \<and>
         backward_calls evs = [] \<and> length (dr_feeds evs) \<le> 1 \<and>
         prefix (backward_calls evs) (combined_errors tc evs)"
  using assms
  by (elim step_fails.cases)
     (auto dest!: less5 simp: proj_simps step_calls_def Let_def combined_errors_def)

lemma loop_runs_any:
  assumes "loop_runs env tc vn isCuda b ts tot evs res"
  shows "setR_calls evs = [] \<and> stats_feeds evs = [] \<and>
         prefix (map fst (model_calls evs)) (map (\<lambda>t. hist env b (int t)) ts) \<and>
         length (backward_calls evs) \<le> length ts \<and> length (dr_feeds evs) \<le> length ts"
  using assms
proof (induction rule: loop_runs.induct)
  case (finished tot)
  then show ?case by (simp add: proj_simps)
next
  case (iteration out v t ts tot p q evs res R)
  then show ?case by (simp add: proj_simps step_calls_def Let_def)
next
  case (aborted t evs e ts tot)
  from step_fails_any[OF aborted] have
    "setR_calls evs = []" "stats_feeds evs = []" "backward_calls evs = []"
    "length (dr_feeds evs) \<le> 1" and
    pre: "prefix (map fst (model_calls evs)) [hist env b (int t)]"
    by blast+
  moreover from prefix_prefix[OF pre, of "map (\<lambda>t. hist env b (int t)) ts"]
  have "prefix (map fst (model_calls evs)) (map (\<lambda>t. hist env b (int t)) (t # ts))"
    by simp
  ultimately show ?case by simp
qed

lemma prelude_calls_proj:
  "model_calls (prelude_calls env tc b out v) = [(hist env b (int (length (batch_s b)) - 1), out)]"
  "setR_calls (prelude_calls env tc b out v) = [data tc (squeeze tc v)]"
  "dr_feeds (prelude_calls env tc b out v) = []"
  "pg_feeds (prelude_calls env tc b out v) = []"
  "vm_feeds (prelude_calls env tc b out v) = []"
  "backward_calls (prelude_calls env tc b out v) = []"
  "stats_feeds (prelude_calls env tc b out v) = []"
  "raises (prelude_calls env tc b out v) = []"
  by (simp_all add: prelude_calls_def proj_simps)

lemma report_runs_proj:
  assumes "report_runs tc T tot revs res"
  shows "model_calls revs = []" "setR_calls revs = []" "dr_feeds revs = []" "pg_feeds revs = []"
    "vm_feeds revs = []" "backward_calls revs = []"
  using assms by (auto elim!: report_runs.cases simp: proj_simps)

lemma prelude_fails_proj:
  assumes "prelude_fails env tc vn b evs e"
  shows "prefix (map fst (model_calls evs)) [hist env b (int (length (batch_s b)) - 1)]"
    "setR_calls evs = []" "dr_feeds evs = []" "pg_feeds evs = []" "vm_feeds evs = []"
    "backward_calls evs = []" "stats_feeds evs = []"
  using assms by (auto elim!: prelude_fails.cases simp: proj_simps)


lemma update_runs_ok:
  assumes "update_runs env tc vn b tr res" "\<not> callee_failed res"
  shows "map fst (model_calls tr) =
           map (hist env b) ((int (length (batch_s b)) - 1) # map int (range_down (length (batch_s b)))) \<and>
         length (backward_calls tr) = length (batch_s b) - 1 \<and>
         length (dr_feeds tr) = length (batch_s b) - 1 \<and>
         length (pg_feeds tr) = length (batch_s b) - 1 \<and>
         length (vm_feeds tr) = length (batch_s b) - 1"
  using assms(1)
proof (cases rule: update_runs.cases)
  case (prelude_aborted e)
  with assms(2) show ?thesis using prelude_fails_callee by fastforce
next
  case (loop_aborted out v levs e)
  with assms(2) show ?thesis using loop_runs_Inl[OF loop_aborted(4) refl] by auto
next
  case (loop_completed out v levs tot revs)
  from loop_runs_Inr[OF loop_completed(3) refl] report_runs_proj[OF loop_completed(4)] show ?thesis
    unfolding loop_completed(1)
    by (simp add: proj_simps prelude_calls_proj range_down_length comp_def)
qed

subsection \<open>The accumulated error and the reported cost\<close>

text \<open>
  C10: when \<open>T \<ge> 2\<close> the last statement never finds \<^verbatim>\<open>tot_err\<close> at \<^verbatim>\<open>None\<close>: a call of
  update does not end in \<open>TypeError\<close>. Whenever the loop over \<^verbatim>\<open>range(T - 2, -1, -1)\<close>
  returns, \<^verbatim>\<open>tot_err\<close> is a tensor: the zero tensor shaped like the detached combined
  error \<open>e\<close> of the first iteration, to which the detached errors of all iterations
  were added.
\<close>

theorem tot_err_allocated:
  assumes "2 \<le> length (batch_s b)"
  shows "fst (run env tc value_node b w) \<noteq> Inl TypeError \<and>
         (\<forall>isCuda st tot st'.
            loop env tc value_node isCuda (range_down (length (batch_s b))) None st = (Inr tot, st') \<longrightarrow>
            (\<exists>evs e es. trace st' = trace st @ evs \<and> backward_calls evs = e # es \<and>
               tot = Some (accumulate tc (zeros_like tc (data tc e)) (e # es))))"
proof (intro conjI allI impI)
  from assms have ne: "range_down (length (batch_s b)) \<noteq> []"
    using range_down_length[of "length (batch_s b)"] by auto
  obtain res st where r: "run env tc value_node b w = (res, st)"
    by (cases "run env tc value_node b w")
  from run_sound[OF r] have "update_runs env tc value_node b (trace st) res" by simp
  then have "res \<noteq> Inl TypeError"
  proof (cases rule: update_runs.cases)
    case (prelude_aborted e)
    then show ?thesis using prelude_fails_callee by fastforce
  next
    case (loop_aborted out v levs e)
    then show ?thesis using loop_runs_Inl[OF loop_aborted(4) refl] by auto
  next
    case (loop_completed out v levs tot revs)
    from loop_runs_tot[OF loop_completed(3) ne] obtain a where "tot = Some a" by blast
    with loop_completed(4) show ?thesis by (auto elim: report_runs.cases)
  qed
  with r show "fst (run env tc value_node b w) \<noteq> Inl TypeError" by simp
  fix isCuda st tot st'
  assume l: "loop env tc value_node isCuda (range_down (length (batch_s b))) None st = (Inr tot, st')"
  from loop_sound[OF l] obtain evs where
    "trace st' = trace st @ evs"
    "loop_runs env tc value_node isCuda (batch st) (range_down (length (batch_s b))) None evs (Inr tot)"
    by blast
  with loop_runs_tot[OF this(2) ne]
  show "\<exists>evs e es. trace st' = trace st @ evs \<and> backward_calls evs = e # es \<and>
          tot = Some (accumulate tc (zeros_like tc (data tc e)) (e # es))"
    by blast
qed

theorem tot_err_allocated_witness:
  "2 \<le> length (batch_s ex_batch) \<and>
   fst (run (ex_env ex_value False) ex_torch ''V'' ex_batch ex_world0) \<noteq> Inl TypeError \<and>
   fst (loop (ex_env ex_value False) ex_torch ''V'' False (range_down (length (batch_s ex_batch)))
          None \<lparr>batch = ex_batch, world = ex_world0\<lparr>est_R := [1 / 2]\<rparr>, trace = []\<rparr>) =
     Inr (Some (Tensor [9321 / 40000] False False))"
proof -
  have h: "2 \<le> length (batch_s ex_batch)"
    by (simp add: ex_batch_def)
  have l: "fst (loop (ex_env ex_value False) ex_torch ''V'' False
                 (range_down (length (batch_s ex_batch))) None
                 \<lparr>batch = ex_batch, world = ex_world0\<lparr>est_R := [1 / 2]\<rparr>, trace = []\<rparr>) =
           Inr (Some (Tensor [9321 / 40000] False False))"
    by code_simp
  note c = tot_err_allocated[OF h, THEN conjunct1]
  show ?thesis
    by (rule conjI[OF h conjI[OF c l]])
qed


subsection \<open>The iterations\<close>


subsection \<open>The advantage and the value fed\<close>




subsection \<open>Device placement\<close>

lemma step_fails_fed:
  assumes "step_fails env tc vn isCuda b t evs e"
  shows "prefix (map fst (dr_feeds evs)) [fed_at tc isCuda b t] \<and>
         (dr_feeds evs \<noteq> [] \<longrightarrow> t < length (batch_r b) \<and> t < length (batch_terminal b))"
  using assms
  by (elim step_fails.cases)
     (auto dest!: less5 simp: proj_simps step_calls_def Let_def fed_at_def)

lemma loop_runs_fed:
  assumes "loop_runs env tc vn isCuda b ts tot evs res"
  shows "prefix (map fst (dr_feeds evs)) (map (fed_at tc isCuda b) ts) \<and>
         (\<forall>t \<in> set (take (length (dr_feeds evs)) ts).
            t < length (batch_r b) \<and> t < length (batch_terminal b))"
  using assms
proof (induction rule: loop_runs.induct)
  case (finished tot)
  then show ?case by (simp add: proj_simps)
next
  case (iteration out v t ts tot p q evs res R)
  then show ?case
    by (simp add: proj_simps step_calls_def Let_def fed_at_def)
next
  case (aborted t evs e ts tot)
  from step_fails_fed[OF aborted] have
    pre: "prefix (map fst (dr_feeds evs)) [fed_at tc isCuda b t]" and
    rng: "dr_feeds evs \<noteq> [] \<longrightarrow> t < length (batch_r b) \<and> t < length (batch_terminal b)"
    by blast+
  from prefix_prefix[OF pre, of "map (fed_at tc isCuda b) ts"]
  have 1: "prefix (map fst (dr_feeds evs)) (map (fed_at tc isCuda b) (t # ts))"
    by simp
  from pre have "length (dr_feeds evs) \<le> 1"
    using prefix_length_le by fastforce
  with rng have 2: "\<forall>t' \<in> set (take (length (dr_feeds evs)) (t # ts)).
            t' < length (batch_r b) \<and> t' < length (batch_terminal b)"
    by (cases "dr_feeds evs") auto
  from 1 2 show ?case by blast
qed

lemma placement_of_trace:
  "prefix (map fst (dr_feeds (trace (snd (run env tc value_node b w)))))
     (map (fed_at tc (placement tc value_node (trace (snd (run env tc value_node b w)))) b)
        (range_down (length (batch_s b)))) \<and>
   (\<forall>t \<in> set (take (length (dr_feeds (trace (snd (run env tc value_node b w)))))
                (range_down (length (batch_s b)))).
      t < length (batch_r b) \<and> t < length (batch_terminal b))"
proof -
  obtain res st where r: "run env tc value_node b w = (res, st)"
    by (cases "run env tc value_node b w")
  from run_sound[OF r] have "update_runs env tc value_node b (trace st) res"
    by simp
  then have "prefix (map fst (dr_feeds (trace st)))
     (map (fed_at tc (placement tc value_node (trace st)) b) (range_down (length (batch_s b)))) \<and>
   (\<forall>t \<in> set (take (length (dr_feeds (trace st))) (range_down (length (batch_s b)))).
      t < length (batch_r b) \<and> t < length (batch_terminal b))"
  proof (cases rule: update_runs.cases)
    case (prelude_aborted e)
    from prelude_fails_proj[OF prelude_aborted(2)] show ?thesis by simp
  next
    case (loop_aborted out v levs e)
    have "placement tc value_node (trace st) = is_cuda tc v"
      unfolding loop_aborted(1) using loop_aborted(3)
      by (simp add: placement_def proj_simps prelude_calls_proj)
    with loop_runs_fed[OF loop_aborted(4)] show ?thesis
      unfolding loop_aborted(1)
      by (simp add: proj_simps prelude_calls_proj)
  next
    case (loop_completed out v levs tot revs)
    have "placement tc value_node (trace st) = is_cuda tc v"
      unfolding loop_completed(1) using loop_completed(2)
      by (simp add: placement_def proj_simps prelude_calls_proj)
    with loop_runs_fed[OF loop_completed(3)] report_runs_proj[OF loop_completed(4)] show ?thesis
      unfolding loop_completed(1)
      by (simp add: proj_simps prelude_calls_proj)
  qed
  then show ?thesis
    unfolding r by simp
qed

subsection \<open>A batch of one step\<close>

text \<open>
  C5: for a batch with \<open>T = 1\<close> update fails. The loop has nothing to run over
  (\<^verbatim>\<open>range(-1, -1, -1)\<close> is empty) and hands back \<^verbatim>\<open>tot_err = None\<close>; no run makes a
  loop forward pass, a feed or a backward pass, or feeds a cost; every run ends in an
  exception, and when nothing update calls fails that exception is the \<open>TypeError\<close> of
  \<^verbatim>\<open>None[0]\<close> in the last statement.
\<close>

theorem single_step_fails:
  assumes "length (batch_s b) = 1"
  shows "((\<exists>e. fst (run env tc value_node b w) = Inl e) \<and>
          (\<forall>isCuda st. loop env tc value_node isCuda (range_down (length (batch_s b))) None st =
             (Inr None, st)) \<and>
          length (model_calls (trace (snd (run env tc value_node b w)))) \<le> 1 \<and>
          dr_feeds (trace (snd (run env tc value_node b w))) = [] \<and>
          pg_feeds (trace (snd (run env tc value_node b w))) = [] \<and>
          vm_feeds (trace (snd (run env tc value_node b w))) = [] \<and>
          backward_calls (trace (snd (run env tc value_node b w))) = [] \<and>
          stats_feeds (trace (snd (run env tc value_node b w))) = []) \<and>
         (\<not> callee_failed (fst (run env tc value_node b w)) \<longrightarrow>
          fst (run env tc value_node b w) = Inl TypeError)"
proof -
  from assms have rd: "range_down (length (batch_s b)) = []"
    by (simp add: range_down_def)
  obtain res st where r: "run env tc value_node b w = (res, st)"
    by (cases "run env tc value_node b w")
  from run_sound[OF r] have "update_runs env tc value_node b (trace st) res"
    by simp
  then have "((\<exists>e. res = Inl e) \<and> length (model_calls (trace st)) \<le> 1 \<and>
      dr_feeds (trace st) = [] \<and> pg_feeds (trace st) = [] \<and> vm_feeds (trace st) = [] \<and>
      backward_calls (trace st) = [] \<and> stats_feeds (trace st) = []) \<and>
     (\<not> callee_failed res \<longrightarrow> res = Inl TypeError)"
  proof (cases rule: update_runs.cases)
    case (prelude_aborted e)
    from prelude_fails_proj[OF prelude_aborted(2)] prelude_fails_callee[OF prelude_aborted(2)]
      prefix_length_le[of "map fst (model_calls (trace st))"
        "[hist env b (int (length (batch_s b)) - 1)]"]
    show ?thesis
      unfolding prelude_aborted(1) by auto
  next
    case (loop_aborted out v levs e)
    from loop_aborted(4) show ?thesis
      unfolding rd by (rule loop_runs.cases) simp_all
  next
    case (loop_completed out v levs tot revs)
    from loop_completed(3) have l: "levs = []" "tot = None"
      unfolding rd by (auto elim: loop_runs.cases)
    from loop_completed(4) show ?thesis
      unfolding loop_completed(1) l
      by (rule report_runs.cases) (simp_all add: proj_simps prelude_calls_proj)
  qed
  then show ?thesis
    unfolding r rd by (simp add: ret_def)
qed

theorem single_step_fails_witness:
  "length (batch_s ex_batch1) = 1 \<and>
   \<not> callee_failed (fst (run (ex_env ex_value False) ex_torch ''V'' ex_batch1 ex_world0)) \<and>
   fst (run (ex_env ex_value False) ex_torch ''V'' ex_batch1 ex_world0) = Inl TypeError \<and>
   trace (snd (run (ex_env ex_value False) ex_torch ''V'' ex_batch1 ex_world0)) =
     [CallModel 0 [(''pi'', Tensor [1 / 2, 1 / 2] False True), (''V'', Tensor [3 / 10] False True)],
      SetR (Tensor [3 / 10] False False), StatsGet ''cost'']"
proof -
  have h: "length (batch_s ex_batch1) = 1"
    by (simp add: ex_batch1_def)
  have ok: "\<not> callee_failed (fst (run (ex_env ex_value False) ex_torch ''V'' ex_batch1 ex_world0))"
    by code_simp
  have ev: "trace (snd (run (ex_env ex_value False) ex_torch ''V'' ex_batch1 ex_world0)) =
     [CallModel 0 [(''pi'', Tensor [1 / 2, 1 / 2] False True), (''V'', Tensor [3 / 10] False True)],
      SetR (Tensor [3 / 10] False False), StatsGet ''cost'']"
    by code_simp
  note c = single_step_fails[OF h, THEN conjunct2, THEN mp, OF ok]
  show ?thesis
    by (rule conjI[OF h conjI[OF ok conjI[OF c ev]]])
qed

subsection \<open>Exceptions of collaborators\<close>

lemma raise_shape_append:
  "raises pre = [] \<Longrightarrow> raise_shape evs res \<Longrightarrow> raise_shape (pre @ evs) res"
  unfolding raise_shape_def
  by (auto simp: proj_simps split: sum.splits error.splits)

lemma raise_shape_Inl:
  "raise_shape evs (Inl e :: 'x error + 'a) \<Longrightarrow> raise_shape evs (Inl e :: 'x error + 'b)"
  by (simp add: raise_shape_def)

lemma step_fails_raise_shape:
  assumes "step_fails env tc vn isCuda b t evs e"
  shows "raise_shape evs (Inl e)"
  using assms
  by (elim step_fails.cases)
     (auto dest!: less5 simp: raise_shape_def proj_simps step_calls_def Let_def)

lemma loop_runs_raise_shape:
  assumes "loop_runs env tc vn isCuda b ts tot evs res"
  shows "raise_shape evs res"
  using assms
proof (induction rule: loop_runs.induct)
  case (finished tot)
  then show ?case by (simp add: raise_shape_def proj_simps)
next
  case (iteration out v t ts tot p q evs res R)
  have "raises (step_calls env tc vn isCuda b t out v R p q) = []"
    by (simp add: step_calls_def Let_def proj_simps)
  from raise_shape_append[OF this iteration.IH] show ?case .
next
  case (aborted t evs e ts tot)
  then show ?case by (rule step_fails_raise_shape)
qed

lemma prelude_fails_raise_shape:
  assumes "prelude_fails env tc vn b evs e"
  shows "raise_shape evs (Inl e)"
  using assms
  by (elim prelude_fails.cases) (auto simp: raise_shape_def proj_simps)

lemma report_runs_raise_shape:
  assumes "report_runs tc T tot evs res"
  shows "raise_shape evs res \<and> (stats_feeds evs \<noteq> [] \<longrightarrow> res = Inr ())"
  using assms
  by (elim report_runs.cases) (auto simp: raise_shape_def proj_simps)

lemma update_runs_raise_shape:
  assumes "update_runs env tc vn b tr res"
  shows "raise_shape tr res \<and> (stats_feeds tr \<noteq> [] \<longrightarrow> res = Inr ())"
  using assms
proof (cases rule: update_runs.cases)
  case (prelude_aborted e)
  from prelude_fails_raise_shape[OF prelude_aborted(2)] prelude_fails_proj[OF prelude_aborted(2)]
  show ?thesis unfolding prelude_aborted(1) by simp
next
  case (loop_aborted out v levs e)
  from raise_shape_Inl[OF raise_shape_append[OF prelude_calls_proj(8) loop_runs_raise_shape[OF loop_aborted(4)]]]
    loop_runs_any[OF loop_aborted(4)]
  show ?thesis
    unfolding loop_aborted(1) loop_aborted(2)
    by (simp add: proj_simps prelude_calls_proj)
next
  case (loop_completed out v levs tot revs)
  from loop_runs_Inr[OF loop_completed(3) refl] have n: "raises (prelude_calls env tc b out v @ levs) = []"
    by (simp add: proj_simps prelude_calls_proj)
  from report_runs_raise_shape[OF loop_completed(4)] have
    rs: "raise_shape revs res" and rf: "stats_feeds revs \<noteq> [] \<longrightarrow> res = Inr ()"
    by blast+
  from raise_shape_append[OF n rs] have "raise_shape tr res"
    unfolding loop_completed(1) by simp
  moreover from loop_runs_any[OF loop_completed(3)] rf have "stats_feeds tr \<noteq> [] \<longrightarrow> res = Inr ()"
    unfolding loop_completed(1) by (simp add: proj_simps prelude_calls_proj)
  ultimately show ?thesis by simp
qed

lemma set_raises: "x \<in> set (raises tr) \<longleftrightarrow> Raise x \<in> set tr"
proof (induction tr)
  case Nil
  then show ?case by (simp add: proj_simps)
next
  case (Cons e tr)
  then show ?case by (cases e) (auto simp: proj_simps)
qed

text \<open>
  C6: an exception \<open>x\<close> raised by a collaborator during update (the model, the return
  estimator, the policy-gradient objective, the value matcher, a backward pass or the
  stats sink) is the result of update, unchanged, and the raising call is the last thing
  update does: no call follows it, no other raise precedes it, and no cost has been fed.
  Conversely update ends in a collaborator's exception only when that collaborator raised.
\<close>

theorem exception_propagates:
  "(Raise x \<in> set (trace (snd (run env tc value_node b w))) \<longleftrightarrow>
      fst (run env tc value_node b w) = Inl (Raised x)) \<and>
   (Raise x \<in> set (trace (snd (run env tc value_node b w))) \<longrightarrow>
      (\<exists>pre. trace (snd (run env tc value_node b w)) = pre @ [Raise x] \<and> raises pre = []) \<and>
      stats_feeds (trace (snd (run env tc value_node b w))) = [])"
proof -
  obtain res st where r: "run env tc value_node b w = (res, st)"
    by (cases "run env tc value_node b w")
  from run_sound[OF r] have u: "update_runs env tc value_node b (trace st) res"
    by simp
  from update_runs_raise_shape[OF u] have
    sh: "raise_shape (trace st) res" and sf: "stats_feeds (trace st) \<noteq> [] \<longrightarrow> res = Inr ()"
    by blast+
  have 1: "res = Inl (Raised x) \<Longrightarrow>
    (\<exists>pre. trace st = pre @ [Raise x] \<and> raises pre = []) \<and> stats_feeds (trace st) = []"
    using sh sf by (auto simp: raise_shape_def)
  have 2: "Raise x \<in> set (trace st) \<Longrightarrow> res = Inl (Raised x)"
  proof -
    assume "Raise x \<in> set (trace st)"
    then have m: "x \<in> set (raises (trace st))" by (simp add: set_raises)
    then have "raises (trace st) \<noteq> []" by auto
    with sh obtain y pre where y: "res = Inl (Raised y)" "trace st = pre @ [Raise y]" "raises pre = []"
      by (auto simp: raise_shape_def split: sum.splits error.splits)
    with m have "x = y" by (simp add: proj_simps)
    with y show ?thesis by simp
  qed
  from 1 2 show ?thesis
    unfolding r by auto
qed

theorem exception_propagates_witness:
  "Raise ''shape mismatch'' \<in> set (trace (snd (run ex_env_pg_raises ex_torch ''V'' ex_batch ex_world0))) \<and>
   ((\<exists>pre. trace (snd (run ex_env_pg_raises ex_torch ''V'' ex_batch ex_world0)) =
            pre @ [Raise ''shape mismatch''] \<and> raises pre = []) \<and>
    stats_feeds (trace (snd (run ex_env_pg_raises ex_torch ''V'' ex_batch ex_world0))) = []) \<and>
   fst (run ex_env_pg_raises ex_torch ''V'' ex_batch ex_world0) = Inl (Raised ''shape mismatch'') \<and>
   fed (world (snd (run ex_env_pg_raises ex_torch ''V'' ex_batch ex_world0))) = []"
proof -
  have m: "Raise ''shape mismatch'' \<in>
      set (trace (snd (run ex_env_pg_raises ex_torch ''V'' ex_batch ex_world0)))"
    by code_simp
  have ev: "fst (run ex_env_pg_raises ex_torch ''V'' ex_batch ex_world0) = Inl (Raised ''shape mismatch'')"
    by code_simp
  have w: "fed (world (snd (run ex_env_pg_raises ex_torch ''V'' ex_batch ex_world0))) = []"
    by code_simp
  note c = exception_propagates[THEN conjunct2, THEN mp, OF m]
  show ?thesis
    by (rule conjI[OF m conjI[OF c conjI[OF ev w]]])
qed

subsection \<open>Initialising the return estimator\<close>





subsection \<open>The backward pass of each step\<close>












lemma sim_ret: "sim (ret a) (ret a)"
  by (simp add: sim_def ret_def)

lemma sim_throw: "sim (throw e) (throw e)"
  by (simp add: sim_def throw_def)

lemma sim_get_batch: "sim get_batch get_batch"
  by (simp add: sim_def get_batch_def mirrors_def)

lemma sim_getitem: "sim (getitem d k) (getitem d k)"
  by (simp add: getitem_def sim_ret sim_throw split: option.splits)

lemma sim_index_at: "sim (index_at xs t) (index_at xs t)"
  by (simp add: index_at_def sim_ret sim_throw)

lemma sim_bnd:
  fixes m :: "('a, 'h, 's, 't, 'c, 'w, 'x) prog"
    and m' :: "('a, 'h, 's, 't, 'c, 'w \<times> ('h, 't, 'c, 'x) event list, 'x) prog"
    and f :: "'a \<Rightarrow> ('b, 'h, 's, 't, 'c, 'w, 'x) prog"
    and f' :: "'a \<Rightarrow> ('b, 'h, 's, 't, 'c, 'w \<times> ('h, 't, 'c, 'x) event list, 'x) prog"
  assumes "sim m' m" "\<And>a. sim (f' a) (f a)"
  shows "sim (bnd m' f') (bnd m f)"
  unfolding sim_def
proof (intro allI impI)
  fix st' :: "('h, 's, 't, 'c, 'w \<times> ('h, 't, 'c, 'x) event list, 'x) state"
  fix st :: "('h, 's, 't, 'c, 'w, 'x) state"
  assume mi: "mirrors st' st"
  obtain r s where ms: "m st = (r, s)" by (cases "m st")
  obtain r' s' where ms': "m' st' = (r', s')" by (cases "m' st'")
  from assms(1) mi have "fst (m' st') = fst (m st) \<and> mirrors (snd (m' st')) (snd (m st))"
    unfolding sim_def by blast
  with ms ms' have eq: "r' = r" and mi': "mirrors s' s"
    by simp_all
  show "fst (bnd m' f' st') = fst (bnd m f st) \<and> mirrors (snd (bnd m' f' st')) (snd (bnd m f st))"
  proof (cases r)
    case (Inl e)
    with ms ms' eq mi' show ?thesis by (simp add: bnd_def)
  next
    case (Inr a)
    from assms(2)[of a] mi' have
      "fst (f' a s') = fst (f a s) \<and> mirrors (snd (f' a s')) (snd (f a s))"
      unfolding sim_def by blast
    with Inr ms ms' eq show ?thesis by (simp add: bnd_def)
  qed
qed

lemma sim_call:
  fixes f :: "'w \<Rightarrow> ('x + 'a) \<times> 'w" and ev :: "'a \<Rightarrow> ('h, 't, 'c, 'x) event"
  shows "sim (call (record_call f ev) ev
            :: ('a, 'h, 's, 't, 'c, 'w \<times> ('h, 't, 'c, 'x) event list, 'x) prog) (call f ev)"
  unfolding sim_def
proof (intro allI impI)
  fix st' :: "('h, 's, 't, 'c, 'w \<times> ('h, 't, 'c, 'x) event list, 'x) state"
  fix st :: "('h, 's, 't, 'c, 'w, 'x) state"
  assume mi: "mirrors st' st"
  obtain r w' where fw: "f (world st) = (r, w')" by (cases "f (world st)")
  with mi show "fst (call (record_call f ev) ev st') = fst (call f ev st) \<and>
      mirrors (snd (call (record_call f ev) ev st')) (snd (call f ev st))"
    by (cases r) (simp_all add: call_def record_call_def mirrors_def)
qed

lemma recording_simps:
  "hist (recording env) = hist env"
  "forward (recording env) h = record_call (forward env h) (CallModel h)"
  "setR (recording env) R0 = record_call (setR env R0) (\<lambda>_. SetR R0)"
  "dr_feed (recording env) d = record_call (dr_feed env d) (DRFeed d)"
  "pg_feed (recording env) adv out h h' = record_call (pg_feed env adv out h h') (PGFeed adv out h h')"
  "vm_feed (recording env) d = record_call (vm_feed env d) (VMFeed d)"
  "backward (recording env) e = record_call (backward env e) (\<lambda>_. Backward e)"
  "stats_getitem (recording env) k = record_call (stats_getitem env k) (\<lambda>_. StatsGet k)"
  "stats_feed (recording env) k c = record_call (stats_feed env k c) (\<lambda>_. StatsFeed k c)"
  by (simp_all add: recording_def)

lemma sim_loop_body:
  "sim (loop_body (recording env) tc vn isCuda t tot) (loop_body env tc vn isCuda t tot)"
  unfolding loop_body_def Let_def recording_simps
  by (intro sim_bnd sim_call sim_get_batch sim_getitem sim_index_at sim_ret)

lemma sim_loop:
  "sim (loop (recording env) tc vn isCuda ts tot) (loop env tc vn isCuda ts tot)"
proof (induction ts arbitrary: tot)
  case Nil
  show ?case by (simp add: sim_ret)
next
  case (Cons t ts)
  show ?case by (simp add: sim_bnd[OF sim_loop_body Cons])
qed

lemma sim_prelude:
  "sim (prelude (recording env) tc vn) (prelude env tc vn)"
  unfolding prelude_def Let_def recording_simps
  by (intro sim_bnd sim_call sim_get_batch sim_getitem sim_index_at sim_ret)

lemma sim_report:
  "sim (report (recording env) tc T tot) (report env tc T tot)"
  unfolding report_def recording_simps
  by (cases tot) (auto intro!: sim_bnd sim_call sim_ret sim_throw)

lemma sim_update:
  "sim (update (recording env) tc vn) (update env tc vn)"
  unfolding update_def
  by (rule sim_bnd[OF sim_prelude]) (auto intro!: sim_bnd sim_loop sim_report)

lemma run_recording:
  "fst (run (recording env) tc vn b (w, [])) = fst (run env tc vn b w) \<and>
   mirrors (snd (run (recording env) tc vn b (w, []))) (snd (run env tc vn b w))"
proof -
  have "mirrors \<lparr>batch = b, world = (w, []), trace = []\<rparr> \<lparr>batch = b, world = w, trace = []\<rparr>"
    by (simp add: mirrors_def)
  with sim_update[of env tc vn] show ?thesis
    unfolding run_def sim_def by blast
qed

lemma received_trace:
  "received env tc vn b w = trace (snd (run env tc vn b w))"
  using run_recording[of env tc vn b w] by (simp add: received_def mirrors_def)

lemma recording_world:
  "fst (world (snd (run (recording env) tc vn b (w, [])))) = world (snd (run env tc vn b w))"
  using run_recording[of env tc vn b w] by (simp add: mirrors_def)

subsection \<open>The reported cost\<close>



subsection \<open>The iterations of the loop\<close>




subsection \<open>The backward pass of each step, as the collaborators see it\<close>



subsection \<open>The advantage and the value fed, as the collaborators see them\<close>




subsection \<open>Device placement, as the return estimator sees it\<close>

lemma prefix_same_length: "prefix xs ys \<Longrightarrow> length xs = length ys \<Longrightarrow> xs = ys"
  by (auto simp: prefix_def)

text \<open>
  C4, as the code has it: the placement is decided once per call, from whether the value
  output of the forward pass at \<open>T - 1\<close> is on the accelerator, and only the reward goes
  through it. In every run the dictionaries the return estimator receives are, in order,
  those of \<open>t = T - 2, T - 3, \<dots>\<close> with \<^verbatim>\<open>r = batch["r"][t].cuda()\<close> when that value
  output is on the accelerator and \<^verbatim>\<open>r = batch["r"][t]\<close> itself otherwise, and with
  \<^verbatim>\<open>terminal = batch["terminal"][t]\<close> as it is in the batch. When nothing update calls
  fails the estimator receives all \<open>T - 1\<close> of them.
\<close>

theorem reward_placement:
  "prefix (map fst (dr_feeds (received env tc value_node b w)))
     (map (\<lambda>t. [(''r'', if placement tc value_node (received env tc value_node b w)
                         then cuda tc (batch_r b ! t) else batch_r b ! t),
                 (''terminal'', batch_terminal b ! t)])
        (range_down (length (batch_s b)))) \<and>
   (\<forall>t \<in> set (take (length (dr_feeds (received env tc value_node b w)))
                (range_down (length (batch_s b)))).
      t < length (batch_r b) \<and> t < length (batch_terminal b)) \<and>
   (\<not> callee_failed (fst (run env tc value_node b w)) \<longrightarrow>
    map fst (dr_feeds (received env tc value_node b w)) =
      map (\<lambda>t. [(''r'', if placement tc value_node (received env tc value_node b w)
                          then cuda tc (batch_r b ! t) else batch_r b ! t),
                  (''terminal'', batch_terminal b ! t)])
        (range_down (length (batch_s b))))"
proof -
  let ?tr = "trace (snd (run env tc value_node b w))"
  let ?f = "\<lambda>t. [(''r'', if placement tc value_node ?tr
                         then cuda tc (batch_r b ! t) else batch_r b ! t),
                 (''terminal'', batch_terminal b ! t)]"
  have fed: "fed_at tc (placement tc value_node ?tr) b = ?f"
    by (rule ext) (simp add: fed_at_def py_dict_def cudaify_def)
  from placement_of_trace[of env tc value_node b w] have
    p: "prefix (map fst (dr_feeds ?tr)) (map ?f (range_down (length (batch_s b))))" and
    r: "\<forall>t \<in> set (take (length (dr_feeds ?tr)) (range_down (length (batch_s b)))).
          t < length (batch_r b) \<and> t < length (batch_terminal b)"
    unfolding fed by blast+
  have e: "\<not> callee_failed (fst (run env tc value_node b w)) \<longrightarrow>
      map fst (dr_feeds ?tr) = map ?f (range_down (length (batch_s b)))"
  proof
    assume ok: "\<not> callee_failed (fst (run env tc value_node b w))"
    obtain res st where rs: "run env tc value_node b w = (res, st)"
      by (cases "run env tc value_node b w")
    from run_sound[OF rs] have u: "update_runs env tc value_node b (trace st) res"
      by simp
    from ok rs have "\<not> callee_failed res" by simp
    from update_runs_ok[OF u this] rs have "length (dr_feeds ?tr) = length (batch_s b) - 1"
      by simp
    then have "length (map fst (dr_feeds ?tr)) = length (map ?f (range_down (length (batch_s b))))"
      by (simp add: range_down_length)
    from p this show "map fst (dr_feeds ?tr) = map ?f (range_down (length (batch_s b)))"
      by (rule prefix_same_length)
  qed
  from p r e show ?thesis
    unfolding received_trace by blast
qed

theorem reward_placement_witness:
  "\<not> callee_failed (fst (run (ex_env ex_value False) ex_torch ''V'' ex_batch3 ex_world0)) \<and>
   map fst (dr_feeds (received (ex_env ex_value False) ex_torch ''V'' ex_batch3 ex_world0)) =
     map (\<lambda>t. [(''r'', if placement ex_torch ''V'' (received (ex_env ex_value False) ex_torch ''V'' ex_batch3 ex_world0)
                         then cuda ex_torch (batch_r ex_batch3 ! t) else batch_r ex_batch3 ! t),
                 (''terminal'', batch_terminal ex_batch3 ! t)])
       (range_down (length (batch_s ex_batch3))) \<and>
   \<not> placement ex_torch ''V'' (received (ex_env ex_value False) ex_torch ''V'' ex_batch3 ex_world0) \<and>
   map fst (dr_feeds (received (ex_env ex_value False) ex_torch ''V'' ex_batch3 ex_world0)) =
     [[(''r'', Tensor [0] False False), (''terminal'', Tensor [0] False False)],
      [(''r'', Tensor [1] False False), (''terminal'', Tensor [0] False False)]] \<and>
   map (cuda ex_torch) (batch_r ex_batch3) =
     [Tensor [1] True False, Tensor [0] True False, Tensor [2] True False] \<and>
   \<not> callee_failed (fst (run (ex_env ex_value True) ex_torch ''V'' ex_batch3 ex_world0)) \<and>
   map fst (dr_feeds (received (ex_env ex_value True) ex_torch ''V'' ex_batch3 ex_world0)) =
     map (\<lambda>t. [(''r'', if placement ex_torch ''V'' (received (ex_env ex_value True) ex_torch ''V'' ex_batch3 ex_world0)
                         then cuda ex_torch (batch_r ex_batch3 ! t) else batch_r ex_batch3 ! t),
                 (''terminal'', batch_terminal ex_batch3 ! t)])
       (range_down (length (batch_s ex_batch3))) \<and>
   placement ex_torch ''V'' (received (ex_env ex_value True) ex_torch ''V'' ex_batch3 ex_world0) \<and>
   map fst (dr_feeds (received (ex_env ex_value True) ex_torch ''V'' ex_batch3 ex_world0)) =
     [[(''r'', Tensor [0] True False), (''terminal'', Tensor [0] False False)],
      [(''r'', Tensor [1] True False), (''terminal'', Tensor [0] False False)]]"
proof -
  have ok: "\<not> callee_failed (fst (run (ex_env ex_value False) ex_torch ''V'' ex_batch3 ex_world0))"
    by code_simp
  have np: "\<not> placement ex_torch ''V'' (received (ex_env ex_value False) ex_torch ''V'' ex_batch3 ex_world0)"
    by code_simp
  have ev: "map fst (dr_feeds (received (ex_env ex_value False) ex_torch ''V'' ex_batch3 ex_world0)) =
     [[(''r'', Tensor [0] False False), (''terminal'', Tensor [0] False False)],
      [(''r'', Tensor [1] False False), (''terminal'', Tensor [0] False False)]]"
    by code_simp
  have mv: "map (cuda ex_torch) (batch_r ex_batch3) =
     [Tensor [1] True False, Tensor [0] True False, Tensor [2] True False]"
    by code_simp
  have gok: "\<not> callee_failed (fst (run (ex_env ex_value True) ex_torch ''V'' ex_batch3 ex_world0))"
    by code_simp
  have gp: "placement ex_torch ''V'' (received (ex_env ex_value True) ex_torch ''V'' ex_batch3 ex_world0)"
    by code_simp
  have gev: "map fst (dr_feeds (received (ex_env ex_value True) ex_torch ''V'' ex_batch3 ex_world0)) =
     [[(''r'', Tensor [0] True False), (''terminal'', Tensor [0] False False)],
      [(''r'', Tensor [1] True False), (''terminal'', Tensor [0] False False)]]"
    by code_simp
  note c = reward_placement[THEN conjunct2, THEN conjunct2, THEN mp, OF ok]
  note g = reward_placement[THEN conjunct2, THEN conjunct2, THEN mp, OF gok]
  show ?thesis
    by (rule conjI[OF ok conjI[OF c conjI[OF np conjI[OF ev conjI[OF mv
          conjI[OF gok conjI[OF g conjI[OF gp gev]]]]]]]])
qed

text \<open>
  C4 as stated fails on the terminal flag. The model output is on the accelerator, the
  batch is not: the return estimator receives the reward moved and the terminal flag as
  it is in the batch, which is not what moving it would give.
\<close>

theorem terminal_not_moved:
  "placement ex_torch ''V'' (received (ex_env ex_value True) ex_torch ''V'' ex_batch ex_world0) \<and>
   map fst (dr_feeds (received (ex_env ex_value True) ex_torch ''V'' ex_batch ex_world0)) =
     [[(''r'', Tensor [1] True False), (''terminal'', Tensor [0] False False)]] \<and>
   batch_terminal ex_batch ! 0 = Tensor [0] False False \<and>
   cuda ex_torch (batch_terminal ex_batch ! 0) = Tensor [0] True False"
  by code_simp

subsection \<open>Initialising the return estimator, and what is left from the call before\<close>






end
